theory Spec2Isabelle
  imports Main "HOL-Library.Word" "HOL-Library.Multiset"
begin

section \<open>Machine types and configuration constants of tmv7.ino\<close>

text \<open>
  The firmware runs on an ESP8266: \<^verbatim>\<open>uint8_t\<close> is an 8-bit word and \<^verbatim>\<open>unsigned long\<close>
  (the \<^verbatim>\<open>millis()\<close> counter) a 32-bit word, both with wrap-around.  Values of
  \<^verbatim>\<open>time_t\<close> and of \<^verbatim>\<open>long\<close> are read as integers: the code only compares them, and
  its one subtraction \<^verbatim>\<open>nowEpoch - ageSec\<close> is guarded by \<^verbatim>\<open>nowEpoch > ageSec\<close>
  with \<^verbatim>\<open>0 \<le> ageSec\<close>, so it stays between 1 and \<^verbatim>\<open>nowEpoch\<close> at any width.
\<close>

type_synonym u8 = "8 word"
type_synonym u32 = "32 word"
type_synonym time_t = int

definition SENSOR_INVERTED :: "bool list" where
  "SENSOR_INVERTED = [False, False, False, False]"

definition FW_VERSION_CODE :: int where
  "FW_VERSION_CODE = 2026022303"

definition MIN_VALID_EPOCH :: time_t where
  "MIN_VALID_EPOCH = 1704067200"

section \<open>Sensor debouncing and the level snapshot\<close>

datatype pin_level = LOW | HIGH

record SensorSnapshot =
  wet :: "bool list"
  wetCount :: u8
  tankPercent :: u8
  sampledAtMs :: u32

text \<open>
  The sampling loop of \<^verbatim>\<open>readStableSensorWet\<close>:
  \<^verbatim>\<open>for (uint8_t i = 0; i < sampleCount; i++) { if (digitalRead(pin) == HIGH) highCount++; delay(2); }\<close>
  with \<^verbatim>\<open>sampleCount = 5\<close>.  The argument \<open>reads\<close> gives the level that the
  \<open>i\<close>-th call of \<^verbatim>\<open>digitalRead\<close> on the channel's pin returns.
\<close>

function sampleLoop :: "(nat \<Rightarrow> pin_level) \<Rightarrow> nat \<Rightarrow> u8 \<Rightarrow> u8" where
  "sampleLoop reads i highCount =
     (if i < 5
      then sampleLoop reads (i + 1) (if reads i = HIGH then highCount + 1 else highCount)
      else highCount)"
  by pat_completeness auto
termination
  by (relation "measure (\<lambda>(reads, i, highCount). 5 - i)") auto

declare sampleLoop.simps [simp del]

text \<open>
  \<^verbatim>\<open>readStableSensorWet\<close> with the polarity table as an argument (the source reads the
  constant table \<^verbatim>\<open>SENSOR_INVERTED\<close>, which the owner edits for active-low sensors).
  \<open>pins idx\<close> is the stream of levels on \<^verbatim>\<open>SENSOR_PINS[idx]\<close> during the call.
\<close>

definition readStableSensorWet_cfg :: "bool list \<Rightarrow> (nat \<Rightarrow> nat \<Rightarrow> pin_level) \<Rightarrow> nat \<Rightarrow> bool" where
  "readStableSensorWet_cfg inverted pins sensorIdx =
     (let highCount = sampleLoop (pins sensorIdx) 0 0;
          wet0 = (highCount \<ge> 3)
      in if inverted ! sensorIdx then \<not> wet0 else wet0)"

definition readStableSensorWet :: "(nat \<Rightarrow> nat \<Rightarrow> pin_level) \<Rightarrow> nat \<Rightarrow> bool" where
  "readStableSensorWet pins sensorIdx = readStableSensorWet_cfg SENSOR_INVERTED pins sensorIdx"

text \<open>
  \<^verbatim>\<open>calcTankPercent\<close>: \<^verbatim>\<open>for (int i = 3; i >= 0; i--) { if (wet[i]) filledBands++; else break; }\<close>
  and then \<^verbatim>\<open>return filledBands * 25\<close>, truncated to \<^verbatim>\<open>uint8_t\<close>.
\<close>

function bandsLoop :: "bool list \<Rightarrow> int \<Rightarrow> u8 \<Rightarrow> u8" where
  "bandsLoop wt i filledBands =
     (if i \<ge> 0
      then (if wt ! nat i then bandsLoop wt (i - 1) (filledBands + 1) else filledBands)
      else filledBands)"
  by pat_completeness auto
termination
  by (relation "measure (\<lambda>(wt, i, filledBands). nat (i + 1))") auto

declare bandsLoop.simps [simp del]

definition calcTankPercent :: "bool list \<Rightarrow> u8" where
  "calcTankPercent wt = bandsLoop wt 3 0 * 25"

text \<open>The rule of the specification: the wet channels counted from index 3 upward, up to the first dry one.\<close>

definition contiguousWet :: "bool list \<Rightarrow> nat" where
  "contiguousWet wt = length (takeWhile (\<lambda>b. b) (rev wt))"

section \<open>Process-wide state\<close>

record UpdateManifest =
  versionCode :: int
  versionName :: string
  firmwareUrl :: string

text \<open>
  The global variables of the sketch.  Every array has four elements, one per channel, index 0
  the top sensor and index 3 the bottom one.
\<close>

record device =
  snapshot :: SensorSnapshot
  pendingUpdate :: UpdateManifest
  updateAvailable :: bool
  updateStatus :: string
  sensorInitialized :: "bool list"
  sensorChangedAtEpoch :: "time_t list"
  sensorChangedAtMs :: "u32 list"
  lastSensorPollMs :: u32
  lastReconnectMs :: u32
  lastBlinkMs :: u32
  lastClockSyncMs :: u32
  blinkState :: bool

definition emptyManifest :: UpdateManifest where
  "emptyManifest = \<lparr>versionCode = 0, versionName = [], firmwareUrl = []\<rparr>"

text \<open>The initializers of the globals.\<close>

definition initialDevice :: device where
  "initialDevice =
     \<lparr>snapshot = \<lparr>wet = [False, False, False, False], wetCount = 0, tankPercent = 0, sampledAtMs = 0\<rparr>,
      pendingUpdate = emptyManifest,
      updateAvailable = False,
      updateStatus = ''No update check yet.'',
      sensorInitialized = [False, False, False, False],
      sensorChangedAtEpoch = [0, 0, 0, 0],
      sensorChangedAtMs = [0, 0, 0, 0],
      lastSensorPollMs = 0, lastReconnectMs = 0, lastBlinkMs = 0, lastClockSyncMs = 0,
      blinkState = False\<rparr>"

text \<open>The shape of the arrays, which no function of the sketch changes.\<close>

definition arrays4 :: "device \<Rightarrow> bool" where
  "arrays4 s =
     (length (wet (snapshot s)) = 4 \<and> length (sensorInitialized s) = 4 \<and>
      length (sensorChangedAtEpoch s) = 4 \<and> length (sensorChangedAtMs s) = 4)"

text \<open>The transition record of channel \<open>i\<close>: uptime stamp, epoch stamp, initialized flag.\<close>

definition transitionRecord :: "device \<Rightarrow> nat \<Rightarrow> u32 \<times> time_t \<times> bool" where
  "transitionRecord s i = (sensorChangedAtMs s ! i, sensorChangedAtEpoch s ! i, sensorInitialized s ! i)"

section \<open>The poll\<close>

text \<open>
  The body of the loop of \<^verbatim>\<open>pollSensors\<close> for channel \<open>i\<close>; \<open>nowMs\<close> and \<open>nowEpoch\<close> are
  what \<^verbatim>\<open>millis()\<close> and \<^verbatim>\<open>time(nullptr)\<close> returned when the poll started.
\<close>

definition pollChannel :: "(nat \<Rightarrow> nat \<Rightarrow> pin_level) \<Rightarrow> u32 \<Rightarrow> time_t \<Rightarrow> nat \<Rightarrow> device \<Rightarrow> device" where
  "pollChannel pins nowMs nowEpoch i s =
     (let wetNow = readStableSensorWet pins i;
          s1 = (if \<not> sensorInitialized s ! i \<or> wetNow \<noteq> wet (snapshot s) ! i
                then s\<lparr>sensorChangedAtMs := (sensorChangedAtMs s)[i := nowMs],
                       sensorChangedAtEpoch := (sensorChangedAtEpoch s)[i := nowEpoch],
                       sensorInitialized := (sensorInitialized s)[i := True]\<rparr>
                else s);
          s2 = s1\<lparr>snapshot := (snapshot s1)\<lparr>wet := (wet (snapshot s1))[i := wetNow]\<rparr>\<rparr>
      in if wet (snapshot s2) ! i
         then s2\<lparr>snapshot := (snapshot s2)\<lparr>wetCount := wetCount (snapshot s2) + 1\<rparr>\<rparr>
         else s2)"

function pollLoop :: "(nat \<Rightarrow> nat \<Rightarrow> pin_level) \<Rightarrow> u32 \<Rightarrow> time_t \<Rightarrow> nat \<Rightarrow> device \<Rightarrow> device" where
  "pollLoop pins nowMs nowEpoch i s =
     (if i < 4 then pollLoop pins nowMs nowEpoch (i + 1) (pollChannel pins nowMs nowEpoch i s) else s)"
  by pat_completeness auto
termination
  by (relation "measure (\<lambda>(pins, nowMs, nowEpoch, i, s). 4 - i)") auto

declare pollLoop.simps [simp del]

text \<open>\<open>endMs\<close> is the second reading of \<^verbatim>\<open>millis()\<close>, taken after the sampling.\<close>

definition pollSensors :: "(nat \<Rightarrow> nat \<Rightarrow> pin_level) \<Rightarrow> u32 \<Rightarrow> time_t \<Rightarrow> u32 \<Rightarrow> device \<Rightarrow> device" where
  "pollSensors pins nowMs nowEpoch endMs s =
     (let s0 = s\<lparr>snapshot := (snapshot s)\<lparr>wetCount := 0\<rparr>\<rparr>;
          s1 = pollLoop pins nowMs nowEpoch 0 s0;
          s2 = s1\<lparr>snapshot := (snapshot s1)\<lparr>tankPercent := calcTankPercent (wet (snapshot s1))\<rparr>\<rparr>
      in s2\<lparr>snapshot := (snapshot s2)\<lparr>sampledAtMs := endMs\<rparr>\<rparr>)"

section \<open>The clock and the backfill of epoch stamps\<close>

text \<open>\<^verbatim>\<open>isTimeSynced\<close>, as a function of the value \<^verbatim>\<open>time(nullptr)\<close> returns.\<close>

definition isTimeSynced :: "time_t \<Rightarrow> bool" where
  "isTimeSynced t = (t \<ge> MIN_VALID_EPOCH)"

text \<open>
  The body of the loop of \<^verbatim>\<open>backfillSensorEpochTimes\<close>.  The age is the difference of two
  \<^verbatim>\<open>unsigned long\<close> values, so it wraps modulo \<open>2 ^ 32\<close>; the division is unsigned.
\<close>

definition backfillChannel :: "time_t \<Rightarrow> u32 \<Rightarrow> nat \<Rightarrow> device \<Rightarrow> device" where
  "backfillChannel nowEpoch nowMs i s =
     (if \<not> sensorInitialized s ! i \<or> sensorChangedAtMs s ! i = 0 \<or>
         sensorChangedAtEpoch s ! i \<ge> MIN_VALID_EPOCH
      then s
      else
        (let ageMs = nowMs - sensorChangedAtMs s ! i;
             ageSec = uint (ageMs div 1000)
         in s\<lparr>sensorChangedAtEpoch :=
               (sensorChangedAtEpoch s)[i := (if nowEpoch > ageSec then nowEpoch - ageSec else nowEpoch)]\<rparr>))"

function backfillLoop :: "time_t \<Rightarrow> u32 \<Rightarrow> nat \<Rightarrow> device \<Rightarrow> device" where
  "backfillLoop nowEpoch nowMs i s =
     (if i < 4 then backfillLoop nowEpoch nowMs (i + 1) (backfillChannel nowEpoch nowMs i s) else s)"
  by pat_completeness auto
termination
  by (relation "measure (\<lambda>(nowEpoch, nowMs, i, s). 4 - i)") auto

declare backfillLoop.simps [simp del]

text \<open>
  The function reads the wall clock twice: \<open>syncEpoch\<close> is the reading \<^verbatim>\<open>isTimeSynced()\<close>
  tests, \<open>nowEpoch\<close> the one stored in the local constant of that name.
\<close>

definition backfillSensorEpochTimes :: "time_t \<Rightarrow> time_t \<Rightarrow> u32 \<Rightarrow> device \<Rightarrow> device" where
  "backfillSensorEpochTimes syncEpoch nowEpoch nowMs s =
     (if \<not> isTimeSynced syncEpoch then s else backfillLoop nowEpoch nowMs 0 s)"

section \<open>Strings\<close>

text \<open>
  The operations of the Arduino \<^verbatim>\<open>String\<close> class the sketch uses, on character lists
  (texts without the NUL character, which ends a string for the C functions underneath).
  \<^verbatim>\<open>String(n)\<close> of a number is its decimal form.
\<close>

fun String_of_nat :: "nat \<Rightarrow> string" where
  "String_of_nat n =
     (if n < 10 then [char_of (48 + n)]
      else String_of_nat (n div 10) @ [char_of (48 + n mod 10)])"

declare String_of_nat.simps [simp del]

definition String_of_int :: "int \<Rightarrow> string" where
  "String_of_int k = (if k < 0 then CHR ''-'' # String_of_nat (nat (- k)) else String_of_nat (nat k))"

definition isspace :: "char \<Rightarrow> bool" where
  "isspace c = (c = CHR '' '' \<or> c = CHR 0x09 \<or> c = CHR 0x0A \<or> c = CHR 0x0B \<or> c = CHR 0x0C \<or> c = CHR 0x0D)"

definition isdigit :: "char \<Rightarrow> bool" where
  "isdigit c = (48 \<le> (of_char c :: nat) \<and> (of_char c :: nat) \<le> 57)"

definition tolower :: "char \<Rightarrow> char" where
  "tolower c = (if 65 \<le> (of_char c :: nat) \<and> (of_char c :: nat) \<le> 90 then char_of ((of_char c :: nat) + 32) else c)"

definition trim :: "string \<Rightarrow> string" where
  "trim s = rev (dropWhile isspace (rev (dropWhile isspace s)))"

definition toLowerCase :: "string \<Rightarrow> string" where
  "toLowerCase s = map tolower s"

definition startsWith :: "string \<Rightarrow> string \<Rightarrow> bool" where
  "startsWith s p = (length p \<le> length s \<and> take (length p) s = p)"

text \<open>\<^verbatim>\<open>indexOf(ch, fromIndex)\<close>: the first position of \<open>ch\<close> at or after \<open>fromIndex\<close>, or -1.\<close>

definition indexOf :: "string \<Rightarrow> char \<Rightarrow> nat \<Rightarrow> int" where
  "indexOf s ch fromIndex =
     (if fromIndex \<ge> length s then - 1
      else (let n = length (takeWhile (\<lambda>c. c \<noteq> ch) (drop fromIndex s))
            in if n = length s - fromIndex then - 1 else int (fromIndex + n)))"

text \<open>\<^verbatim>\<open>substring(left, right)\<close>: swaps its bounds when out of order and clips them to the length.\<close>

definition substring :: "string \<Rightarrow> nat \<Rightarrow> nat \<Rightarrow> string" where
  "substring s left right =
     (let l = (if left > right then right else left);
          r = (if left > right then left else right)
      in if l \<ge> length s then []
         else (let r' = (if r > length s then length s else r) in take (r' - l) (drop l s)))"

text \<open>
  \<^verbatim>\<open>toInt()\<close> is the C library's \<^verbatim>\<open>atol\<close>: leading white space, an optional sign, then
  the longest run of decimal digits; no digit gives 0, and a value outside the range of a
  32-bit \<^verbatim>\<open>long\<close> is clipped to the nearest bound.
\<close>

fun digitsValue :: "string \<Rightarrow> int \<Rightarrow> int" where
  "digitsValue [] acc = acc"
| "digitsValue (c # cs) acc =
     (if isdigit c then digitsValue cs (acc * 10 + (int (of_char c) - 48)) else acc)"

definition toInt :: "string \<Rightarrow> int" where
  "toInt s =
     (let s1 = dropWhile isspace s;
          v = (case s1 of
                 [] \<Rightarrow> 0
               | c # cs \<Rightarrow>
                   if c = CHR ''-'' then - digitsValue cs 0
                   else if c = CHR ''+'' then digitsValue cs 0
                   else digitsValue s1 0)
      in if v > 2147483647 then 2147483647 else if v < - 2147483648 then - 2147483648 else v)"

section \<open>The update manifest\<close>

text \<open>
  What the loop of \<^verbatim>\<open>parseManifest\<close> does with one line, from \<^verbatim>\<open>line.trim()\<close> to the
  assignment of the field; each \<^verbatim>\<open>continue\<close> returns the manifest as it is.
\<close>

definition processLine :: "string \<Rightarrow> UpdateManifest \<Rightarrow> UpdateManifest" where
  "processLine raw out =
     (let line = trim raw in
      if length line = 0 \<or> startsWith line ''#'' then out
      else
        (let eq = indexOf line CHR ''='' 0 in
         if eq \<le> 0 then out
         else
           (let key = toLowerCase (trim (substring line 0 (nat eq)));
                val = trim (substring line (nat eq + 1) (length line))
            in if key = ''version_code'' then out\<lparr>versionCode := toInt val\<rparr>
               else if key = ''version_name'' then out\<lparr>versionName := val\<rparr>
               else if key = ''firmware_url'' then out\<lparr>firmwareUrl := val\<rparr>
               else out)))"

function parseLoop :: "string \<Rightarrow> nat \<Rightarrow> UpdateManifest \<Rightarrow> UpdateManifest" where
  "parseLoop body start out =
     (if start < length body
      then
        (let e = indexOf body CHR 0x0A start;
             end = (if e < 0 then int (length body) else e);
             line = substring body start (nat end)
         in parseLoop body (nat (end + 1)) (processLine line out))
      else out)"
  by pat_completeness auto
termination
  by (relation "measure (\<lambda>(body, start, out). length body - start)")
     (auto simp: indexOf_def Let_def split: if_splits)

declare parseLoop.simps [simp del]

text \<open>The three fields after the loop, before they are validated.\<close>

definition parseFields :: "string \<Rightarrow> UpdateManifest" where
  "parseFields body = parseLoop body 0 emptyManifest"

text \<open>\<^verbatim>\<open>parseManifest\<close>: \<open>Inl\<close> carries the error text of a \<^verbatim>\<open>false\<close> return, \<open>Inr\<close> the manifest.\<close>

definition parseManifest :: "string \<Rightarrow> string + UpdateManifest" where
  "parseManifest body =
     (let out = parseFields body in
      if versionCode out \<le> 0 then Inl ''manifest missing valid version_code''
      else if length (firmwareUrl out) = 0 then Inl ''manifest missing firmware_url''
      else if length (versionName out) = 0
           then Inr (out\<lparr>versionName := String_of_int (versionCode out)\<rparr>)
           else Inr out)"

section \<open>Fetching the manifest\<close>

text \<open>
  The transport is outside the sketch.  \<open>http client url\<close> is what the HTTP client does for
  that URL: \<^verbatim>\<open>begin\<close> fails, or \<^verbatim>\<open>GET\<close> returns a status code (negative for a client
  error) and \<^verbatim>\<open>getString\<close> the body.  \<^verbatim>\<open>HTTP_CODE_OK\<close> is the library's name for 200.
\<close>

datatype client = PlainClient | SecureClient

datatype http_reply = BeginFailed | Reply int string

definition HTTP_CODE_OK :: int where
  "HTTP_CODE_OK = 200"

definition UPDATE_MANIFEST_URL :: string where
  "UPDATE_MANIFEST_URL = ''https://raw.githubusercontent.com/gavc/tmv71/main/ota/manifest.txt''"

definition fetchTextFromUrl :: "(client \<Rightarrow> string \<Rightarrow> http_reply) \<Rightarrow> string \<Rightarrow> string + string" where
  "fetchTextFromUrl http url =
     (case (if startsWith url ''https://'' then http SecureClient url else http PlainClient url) of
        BeginFailed \<Rightarrow> Inl ''cannot open URL''
      | Reply code body \<Rightarrow>
          if code \<noteq> HTTP_CODE_OK then Inl (''HTTP '' @ String_of_int code) else Inr body)"

definition fetchManifest :: "(client \<Rightarrow> string \<Rightarrow> http_reply) \<Rightarrow> string + UpdateManifest" where
  "fetchManifest http =
     (case fetchTextFromUrl http UPDATE_MANIFEST_URL of
        Inl error \<Rightarrow> Inl error
      | Inr body \<Rightarrow> parseManifest body)"

section \<open>The two update actions\<close>

text \<open>What a handler sends or starts besides changing the globals, in order.\<close>

datatype effect = RedirectHome | SendOtaPage | OtaUpdate client string

datatype ota_result = HTTP_UPDATE_FAILED int string | HTTP_UPDATE_NO_UPDATES | HTTP_UPDATE_OK

definition handleCheckUpdate ::
  "bool \<Rightarrow> (client \<Rightarrow> string \<Rightarrow> http_reply) \<Rightarrow> device \<Rightarrow> effect list \<times> device" where
  "handleCheckUpdate wifiConnected http s =
     (if \<not> wifiConnected
      then ([RedirectHome],
            s\<lparr>updateAvailable := False, updateStatus := ''Cannot check update: WiFi is disconnected.''\<rparr>)
      else
        (case fetchManifest http of
           Inl error \<Rightarrow>
             ([RedirectHome],
              s\<lparr>updateAvailable := False, updateStatus := ''Update check failed: '' @ error\<rparr>)
         | Inr latest \<Rightarrow>
             if versionCode latest > FW_VERSION_CODE
             then ([RedirectHome],
                   s\<lparr>pendingUpdate := latest, updateAvailable := True,
                     updateStatus := ''Update found: '' @ versionName latest @ '' ('' @
                                     String_of_int (versionCode latest) @ '').''\<rparr>)
             else ([RedirectHome],
                   s\<lparr>updateAvailable := False, pendingUpdate := emptyManifest,
                     updateStatus := ''No new update. Device is current.''\<rparr>)))"

text \<open>\<open>ota client url\<close> is the outcome of \<^verbatim>\<open>ESPhttpUpdate.update\<close> for that client and URL.\<close>

definition handleInstallUpdate ::
  "bool \<Rightarrow> (client \<Rightarrow> string \<Rightarrow> ota_result) \<Rightarrow> device \<Rightarrow> effect list \<times> device" where
  "handleInstallUpdate wifiConnected ota s =
     (if \<not> updateAvailable s
      then ([RedirectHome], s\<lparr>updateStatus := ''No pending update. Run check first.''\<rparr>)
      else if \<not> wifiConnected
      then ([RedirectHome], s\<lparr>updateStatus := ''Cannot install update: WiFi is disconnected.''\<rparr>)
      else
        (let url = firmwareUrl (pendingUpdate s);
             cl = (if startsWith url ''https://'' then SecureClient else PlainClient)
         in case ota cl url of
              HTTP_UPDATE_FAILED code msg \<Rightarrow>
                ([SendOtaPage, OtaUpdate cl url],
                 s\<lparr>updateStatus := ''OTA failed ('' @ String_of_int code @ ''): '' @ msg,
                   updateAvailable := False\<rparr>)
            | HTTP_UPDATE_NO_UPDATES \<Rightarrow>
                ([SendOtaPage, OtaUpdate cl url],
                 s\<lparr>updateStatus := ''OTA result: no updates returned by server.'',
                   updateAvailable := False\<rparr>)
            | HTTP_UPDATE_OK \<Rightarrow>
                ([SendOtaPage, OtaUpdate cl url], s\<lparr>updateStatus := ''OTA reported success.''\<rparr>)))"

section \<open>Formatting the time of a transition\<close>

text \<open>
  \<open>strftimeLocal t\<close> stands for \<^verbatim>\<open>localtime_r\<close> followed by \<^verbatim>\<open>strftime\<close> with the pattern
  \<^verbatim>\<open>%Y-%m-%d %H:%M:%S\<close>; it is \<open>None\<close> when \<^verbatim>\<open>localtime_r\<close> fails.
\<close>

definition formatEpoch :: "(time_t \<Rightarrow> string option) \<Rightarrow> time_t \<Rightarrow> string" where
  "formatEpoch strftimeLocal t =
     (if t \<le> 0 then ''-''
      else (case strftimeLocal t of None \<Rightarrow> ''-'' | Some str \<Rightarrow> str))"

text \<open>\<open>now\<close> is the reading of \<^verbatim>\<open>time(nullptr)\<close> that \<^verbatim>\<open>isTimeSynced()\<close> tests.\<close>

definition sensorChangeTimeToStr :: "(time_t \<Rightarrow> string option) \<Rightarrow> time_t \<Rightarrow> nat \<Rightarrow> device \<Rightarrow> string" where
  "sensorChangeTimeToStr strftimeLocal now idx s =
     (if idx > 3 \<or> sensorChangedAtMs s ! idx = 0 then ''-''
      else if isTimeSynced now \<and> sensorChangedAtEpoch s ! idx \<ge> MIN_VALID_EPOCH
      then formatEpoch strftimeLocal (sensorChangedAtEpoch s ! idx)
      else ''t+'' @ String_of_nat (unat (sensorChangedAtMs s ! idx div 1000)) @ ''s'')"

section \<open>Notions of the specification\<close>

text \<open>The five samples one call of \<^verbatim>\<open>readStableSensorWet\<close> takes from channel \<open>idx\<close>, in order.\<close>

definition samplesOf :: "(nat \<Rightarrow> nat \<Rightarrow> pin_level) \<Rightarrow> nat \<Rightarrow> pin_level list" where
  "samplesOf pins idx = map (pins idx) [0..<5]"

text \<open>The level that means wet on a channel: high, or low when the channel is inverted.\<close>

definition assertedLevel :: "bool list \<Rightarrow> nat \<Rightarrow> pin_level" where
  "assertedLevel inverted idx = (if inverted ! idx then LOW else HIGH)"

text \<open>The range the specification names for a successful fetch.\<close>

definition statusIs2xx :: "int \<Rightarrow> bool" where
  "statusIs2xx code = (200 \<le> code \<and> code \<le> 299)"

text \<open>
  The lines the loop of the parser visits: the text is cut after every line feed, and a last
  line without a line feed counts when it is not empty.
\<close>

function manifestLines :: "string \<Rightarrow> string list" where
  "manifestLines body =
     (if body = [] then []
      else takeWhile (\<lambda>c. c \<noteq> CHR 0x0A) body #
           manifestLines (drop 1 (dropWhile (\<lambda>c. c \<noteq> CHR 0x0A) body)))"
  by pat_completeness auto
termination
proof (relation "measure length", simp)
  fix body :: string
  assume "body \<noteq> []"
  then have "length body \<noteq> 0" by simp
  moreover have "length (dropWhile (\<lambda>c. c \<noteq> CHR 0x0A) body) \<le> length body"
    by (rule length_dropWhile_le)
  ultimately have "length (dropWhile (\<lambda>c. c \<noteq> CHR 0x0A) body) - 1 < length body"
    by arith
  then show "(drop 1 (dropWhile (\<lambda>c. c \<noteq> CHR 0x0A) body), body) \<in> measure length"
    by simp
qed

declare manifestLines.simps [simp del]

text \<open>A blank line, or a line whose first character that is not white space is \<open>#\<close>.\<close>

definition ignoredLine :: "string \<Rightarrow> bool" where
  "ignoredLine l =
     (case dropWhile isspace l of [] \<Rightarrow> True | c # cs \<Rightarrow> c = CHR ''#'')"

section \<open>Example states and inputs\<close>

text \<open>
  After a first poll at uptime 1000 ms: every channel is stamped.  Channel 2 already carries a
  valid epoch, the others the small reading of a clock that was not yet set.
\<close>

definition stampedUnsynced :: device where
  "stampedUnsynced =
     initialDevice\<lparr>sensorInitialized := [True, True, True, True],
                   sensorChangedAtMs := [1000, 1000, 1000, 1000],
                   sensorChangedAtEpoch := [3, 3, 1704067296, 3]\<rparr>"

text \<open>Channel 0 was sampled wet before, the other channels were never sampled.\<close>

definition topSampledWet :: device where
  "topSampledWet =
     initialDevice\<lparr>snapshot := \<lparr>wet = [True, False, False, False], wetCount = 1, tankPercent = 0,
                                  sampledAtMs = 1040\<rparr>,
                   sensorInitialized := [True, False, False, False],
                   sensorChangedAtMs := [1000, 0, 0, 0],
                   sensorChangedAtEpoch := [3, 0, 0, 0]\<rparr>"

text \<open>A poll in which the pin of channel 0 reads high five times and every other pin low.\<close>

definition topHigh :: "nat \<Rightarrow> nat \<Rightarrow> pin_level" where
  "topHigh idx k = (if idx = 0 then HIGH else LOW)"

text \<open>The state a successful check leaves when the server offers a newer build.\<close>

definition updateFound :: device where
  "updateFound =
     initialDevice\<lparr>pendingUpdate := \<lparr>versionCode = 2026022304, versionName = ''7.1.6'',
                                       firmwareUrl = ''http://x/fw.bin''\<rparr>,
                   updateAvailable := True,
                   updateStatus := ''Update found: 7.1.6 (2026022304).''\<rparr>"

text \<open>Transports: one that answers every request with a status and a body, one that cannot open.\<close>

definition answering :: "int \<Rightarrow> string \<Rightarrow> client \<Rightarrow> string \<Rightarrow> http_reply" where
  "answering code body cl url = Reply code body"

definition unreachable :: "client \<Rightarrow> string \<Rightarrow> http_reply" where
  "unreachable cl url = BeginFailed"



text \<open>
  Manifests of the kind the specification tests: the three keys in order; and one with a
  comment, a blank line, a key in capitals with spaces around it, carriage returns, an unknown
  key and no version name.
\<close>

definition manifest42 :: string where
  "manifest42 =
     ''version_code=42'' @ [CHR 0x0A] @ ''version_name=beta'' @ [CHR 0x0A] @
     ''firmware_url=http://x/fw.bin'' @ [CHR 0x0A]"

definition manifestLoose :: string where
  "manifestLoose =
     ''  # latest build'' @ [CHR 0x0D, CHR 0x0A] @ [CHR 0x0A] @
     '' Version_Code = 42 '' @ [CHR 0x0D, CHR 0x0A] @
     ''channel=stable'' @ [CHR 0x0A] @
     ''FIRMWARE_URL=http://x/fw.bin''"

section \<open>The contiguous fill rule\<close>

lemma length4_cases:
  assumes "length xs = 4"
  obtains a b c d where "xs = [a, b, c, d]"
  using assms by (auto simp: length_Suc_conv eval_nat_numeral)

lemma calcTankPercent_four:
  "unat (calcTankPercent [a, b, c, d]) = 25 * contiguousWet [a, b, c, d]"
  by (cases a; cases b; cases c; cases d)
     (simp_all add: calcTankPercent_def contiguousWet_def bandsLoop.simps)

text \<open>
  Claim C4.  For every array \<open>wet[4]\<close> (index 0 the top, 3 the bottom) the fill percentage is
  25 times the number of contiguous wet channels counted from index 3 upward, stopping at the
  first dry channel; the five arrays named by the specification give 50, 25, 100, 0 and 25.
\<close>

theorem calcTankPercent_contiguous:
  "(length wt = 4 \<longrightarrow> unat (calcTankPercent wt) = 25 * contiguousWet wt) \<and>
   calcTankPercent [True, False, True, True] = 50 \<and>
   calcTankPercent [False, False, False, True] = 25 \<and>
   calcTankPercent [True, True, True, True] = 100 \<and>
   calcTankPercent [False, False, False, False] = 0 \<and>
   calcTankPercent [True, False, False, True] = 25"
proof -
  have general: "length wt = 4 \<longrightarrow> unat (calcTankPercent wt) = 25 * contiguousWet wt"
  proof
    assume "length wt = 4"
    then obtain a b c d where "wt = [a, b, c, d]" by (rule length4_cases)
    then show "unat (calcTankPercent wt) = 25 * contiguousWet wt"
      by (simp only: calcTankPercent_four)
  qed
  have examples:
    "calcTankPercent [True, False, True, True] = 50"
    "calcTankPercent [False, False, False, True] = 25"
    "calcTankPercent [True, True, True, True] = 100"
    "calcTankPercent [False, False, False, False] = 0"
    "calcTankPercent [True, False, False, True] = 25"
    by (simp_all add: calcTankPercent_def bandsLoop.simps)
  from general examples show ?thesis by blast
qed

theorem calcTankPercent_contiguous_witness:
  "length [False, True, True, True] = 4 \<and>
   unat (calcTankPercent [False, True, True, True]) = 75 \<and>
   contiguousWet [False, True, True, True] = 3"
  using calcTankPercent_contiguous [of "[False, True, True, True]"]
  by (simp add: contiguousWet_def)

section \<open>The debounce majority rule\<close>

lemma upt5: "[0..<5] = [0, 1, 2, 3, 4]"
  by (simp add: upt_rec)

lemma sampleLoop_gen:
  "i \<le> 5 \<Longrightarrow> sampleLoop r i hc = hc + of_nat (count_list (map r [i..<5]) HIGH)"
proof (induction r i hc rule: sampleLoop.induct)
  case (1 reads i highCount)
  show ?case
  proof (cases "i < 5")
    case True
    then have step: "sampleLoop reads i highCount =
        sampleLoop reads (i + 1) (if reads i = HIGH then highCount + 1 else highCount)"
      by (subst sampleLoop.simps) simp
    from True have upt: "[i..<5] = i # [i + 1..<5]"
      by (simp add: upt_conv_Cons)
    from True have "i + 1 \<le> 5" by simp
    with "1.IH" [OF True] step upt show ?thesis by simp
  next
    case False
    with "1.prems" have "i = 5" by simp
    then show ?thesis by (subst sampleLoop.simps) simp
  qed
qed

lemma count_list_le_length: "count_list xs x \<le> length xs"
  by (induction xs) auto

lemma sampleLoop_count:
  "unat (sampleLoop r 0 0) = count_list (map r [0..<5]) HIGH"
proof -
  have "count_list (map r [0..<5]) HIGH \<le> length (map r [0..<5])"
    by (rule count_list_le_length)
  then have small: "count_list (map r [0..<5]) HIGH \<le> 5" by simp
  have "sampleLoop r 0 0 = of_nat (count_list (map r [0..<5]) HIGH)"
    using sampleLoop_gen [of 0 r 0] by simp
  with small show ?thesis by (simp add: unat_of_nat)
qed

lemma level_counts: "count_list xs LOW + count_list xs HIGH = length xs"
proof (induction xs)
  case Nil
  show ?case by simp
next
  case (Cons x xs)
  then show ?case by (cases x) simp_all
qed

lemma highCount_ge3: "(3 \<le> sampleLoop r 0 0) = (3 \<le> count_list (map r [0..<5]) HIGH)"
proof -
  have "(3 \<le> sampleLoop r 0 0) = (3 \<le> unat (sampleLoop r 0 0))"
    by (simp add: word_le_nat_alt)
  then show ?thesis by (simp only: sampleLoop_count)
qed

lemma readStable_asserted:
  "readStableSensorWet_cfg inverted pins idx =
     (3 \<le> count_list (samplesOf pins idx) (assertedLevel inverted idx))"
proof -
  have len: "length (samplesOf pins idx) = 5" by (simp add: samplesOf_def)
  have lc: "count_list (samplesOf pins idx) LOW + count_list (samplesOf pins idx) HIGH = 5"
    using level_counts [of "samplesOf pins idx"] len by simp
  have hc: "(3 \<le> sampleLoop (pins idx) 0 0) = (3 \<le> count_list (samplesOf pins idx) HIGH)"
    unfolding samplesOf_def by (rule highCount_ge3)
  show ?thesis
    using lc by (auto simp: readStableSensorWet_cfg_def Let_def assertedLevel_def hc)
qed

lemma count_perm: "mset xs = mset ys \<Longrightarrow> count_list xs x = count_list ys x"
  by (metis count_mset)

text \<open>
  Claim C5.  One call takes five samples; the result is wet exactly when at least three of them
  read the asserted level of the channel, whatever their order; the polarity flag negates the
  result after the vote and has no part in the count of high samples.  With the table the
  sketch ships (no channel inverted) wet means at least three high samples.
\<close>

theorem readStableSensorWet_majority:
  "(readStableSensorWet_cfg inverted pins idx \<longleftrightarrow>
      3 \<le> count_list (samplesOf pins idx) (assertedLevel inverted idx)) \<and>
   (mset (samplesOf pins' idx) = mset (samplesOf pins idx) \<longrightarrow>
      readStableSensorWet_cfg inverted pins' idx = readStableSensorWet_cfg inverted pins idx) \<and>
   (inverted' ! idx = (\<not> inverted ! idx) \<longrightarrow>
      readStableSensorWet_cfg inverted' pins idx = (\<not> readStableSensorWet_cfg inverted pins idx)) \<and>
   readStableSensorWet_cfg inverted pins idx =
      (if inverted ! idx then \<not> 3 \<le> sampleLoop (pins idx) 0 0 else 3 \<le> sampleLoop (pins idx) 0 0) \<and>
   unat (sampleLoop (pins idx) 0 0) = count_list (samplesOf pins idx) HIGH \<and>
   (idx < 4 \<longrightarrow> readStableSensorWet pins idx = (3 \<le> count_list (samplesOf pins idx) HIGH))"
proof -
  have a: "readStableSensorWet_cfg inverted pins idx \<longleftrightarrow>
      3 \<le> count_list (samplesOf pins idx) (assertedLevel inverted idx)"
    by (rule readStable_asserted)
  have b: "mset (samplesOf pins' idx) = mset (samplesOf pins idx) \<longrightarrow>
      readStableSensorWet_cfg inverted pins' idx = readStableSensorWet_cfg inverted pins idx"
    by (simp add: readStable_asserted count_perm [of "samplesOf pins' idx" "samplesOf pins idx"])
  have c: "inverted' ! idx = (\<not> inverted ! idx) \<longrightarrow>
      readStableSensorWet_cfg inverted' pins idx = (\<not> readStableSensorWet_cfg inverted pins idx)"
    by (simp add: readStableSensorWet_cfg_def Let_def)
  have d: "readStableSensorWet_cfg inverted pins idx =
      (if inverted ! idx then \<not> 3 \<le> sampleLoop (pins idx) 0 0 else 3 \<le> sampleLoop (pins idx) 0 0)"
    by (simp add: readStableSensorWet_cfg_def Let_def)
  have e: "unat (sampleLoop (pins idx) 0 0) = count_list (samplesOf pins idx) HIGH"
    unfolding samplesOf_def by (rule sampleLoop_count)
  have f: "idx < 4 \<longrightarrow> readStableSensorWet pins idx = (3 \<le> count_list (samplesOf pins idx) HIGH)"
  proof
    assume "idx < 4"
    then have "idx = 0 \<or> idx = 1 \<or> idx = 2 \<or> idx = 3" by arith
    then have "\<not> SENSOR_INVERTED ! idx" by (auto simp: SENSOR_INVERTED_def)
    then show "readStableSensorWet pins idx = (3 \<le> count_list (samplesOf pins idx) HIGH)"
      by (simp add: readStableSensorWet_def readStable_asserted assertedLevel_def)
  qed
  from a b c d e f show ?thesis by blast
qed

theorem readStableSensorWet_majority_witness:
  "mset (samplesOf (\<lambda>i k. [LOW, HIGH, HIGH, LOW, HIGH] ! k) 0) =
     mset (samplesOf (\<lambda>i k. [HIGH, LOW, HIGH, HIGH, LOW] ! k) 0) \<and>
   [True, False, False, False] ! 0 = (\<not> [False, False, False, False] ! 0) \<and>
   (0::nat) < 4 \<and>
   readStableSensorWet_cfg [False, False, False, False] (\<lambda>i k. [HIGH, LOW, HIGH, HIGH, LOW] ! k) 0 \<and>
   readStableSensorWet_cfg [False, False, False, False] (\<lambda>i k. [LOW, HIGH, HIGH, LOW, HIGH] ! k) 0 \<and>
   \<not> readStableSensorWet_cfg [True, False, False, False] (\<lambda>i k. [HIGH, LOW, HIGH, HIGH, LOW] ! k) 0 \<and>
   readStableSensorWet (\<lambda>i k. [HIGH, LOW, HIGH, HIGH, LOW] ! k) 0 \<and>
   unat (sampleLoop (\<lambda>k. [HIGH, LOW, HIGH, HIGH, LOW] ! k) 0 0) = 3"
proof -
  have m: "mset (samplesOf (\<lambda>i k. [LOW, HIGH, HIGH, LOW, HIGH] ! k) 0) =
     mset (samplesOf (\<lambda>i k. [HIGH, LOW, HIGH, HIGH, LOW] ! k) 0)"
    by (simp add: samplesOf_def upt5)
  have c: "count_list (samplesOf (\<lambda>i k. [HIGH, LOW, HIGH, HIGH, LOW] ! k) 0) HIGH = 3"
    by (simp add: samplesOf_def upt5)
  show ?thesis
    using m c
      readStableSensorWet_majority [of "[False, False, False, False]"
        "\<lambda>i k. [HIGH, LOW, HIGH, HIGH, LOW] ! k" 0
        "\<lambda>i k. [LOW, HIGH, HIGH, LOW, HIGH] ! k" "[True, False, False, False]"]
    by (simp add: assertedLevel_def)
qed

section \<open>Transition stamping\<close>

lemma pollChannel_arrays4: "arrays4 s \<Longrightarrow> arrays4 (pollChannel pins nowMs nowEpoch i s)"
  by (simp add: arrays4_def pollChannel_def Let_def)

lemma pollChannel_other:
  "j \<noteq> i \<Longrightarrow>
   transitionRecord (pollChannel pins nowMs nowEpoch i s) j = transitionRecord s j \<and>
   wet (snapshot (pollChannel pins nowMs nowEpoch i s)) ! j = wet (snapshot s) ! j \<and>
   sensorInitialized (pollChannel pins nowMs nowEpoch i s) ! j = sensorInitialized s ! j"
  by (simp add: transitionRecord_def pollChannel_def Let_def)

lemma pollChannel_same:
  "arrays4 s \<Longrightarrow> i < 4 \<Longrightarrow>
   transitionRecord (pollChannel pins nowMs nowEpoch i s) i =
     (if \<not> sensorInitialized s ! i \<or> readStableSensorWet pins i \<noteq> wet (snapshot s) ! i
      then (nowMs, nowEpoch, True) else transitionRecord s i) \<and>
   wet (snapshot (pollChannel pins nowMs nowEpoch i s)) ! i = readStableSensorWet pins i"
  by (simp add: transitionRecord_def pollChannel_def Let_def arrays4_def)

text \<open>
  The loop started at channel \<open>k\<close>: a channel at or after \<open>k\<close> gets the outcome of its own
  step, decided on the values the state held before the loop; an earlier one is left alone.
\<close>

lemma pollLoop_gen:
  "arrays4 s \<Longrightarrow> i < 4 \<Longrightarrow>
   (transitionRecord (pollLoop pins nowMs nowEpoch k s) i,
    wet (snapshot (pollLoop pins nowMs nowEpoch k s)) ! i) =
   (if k \<le> i
    then (if \<not> sensorInitialized s ! i \<or> readStableSensorWet pins i \<noteq> wet (snapshot s) ! i
          then (nowMs, nowEpoch, True) else transitionRecord s i,
          readStableSensorWet pins i)
    else (transitionRecord s i, wet (snapshot s) ! i))"
proof (induction pins nowMs nowEpoch k s rule: pollLoop.induct)
  case (1 pins nowMs nowEpoch k s)
  show ?case
  proof (cases "k < 4")
    case False
    with "1.prems" have "\<not> k \<le> i" by simp
    with False show ?thesis by (subst (1 2) pollLoop.simps) simp
  next
    case k4: True
    let ?s1 = "pollChannel pins nowMs nowEpoch k s"
    have step: "pollLoop pins nowMs nowEpoch k s = pollLoop pins nowMs nowEpoch (k + 1) ?s1"
      using k4 by (subst pollLoop.simps) simp
    have a1: "arrays4 ?s1" using "1.prems"(1) by (rule pollChannel_arrays4)
    note ih = "1.IH" [OF k4 a1 "1.prems"(2)]
    show ?thesis
    proof (cases "k = i")
      case True
      show ?thesis
        unfolding step
        using True ih pollChannel_same [OF "1.prems"(1) "1.prems"(2), of pins nowMs nowEpoch]
        by simp
    next
      case False
      show ?thesis
        unfolding step
        using False ih pollChannel_other [of i k pins nowMs nowEpoch s]
        by auto
    qed
  qed
qed

text \<open>
  Claim C6.  During a poll the transition record of a channel (uptime stamp, epoch stamp,
  initialized flag) is written, with the uptime and epoch read at the start of the poll and
  the flag set, exactly when the channel was never sampled before or its debounced value
  differs from the one stored in the snapshot; a repeated identical reading leaves the record
  as it was.  The snapshot then holds the new value.
\<close>

theorem pollSensors_transition_stamp:
  "arrays4 s \<and> i < 4 \<longrightarrow>
     ((\<not> sensorInitialized s ! i \<or> readStableSensorWet pins i \<noteq> wet (snapshot s) ! i) \<longrightarrow>
        transitionRecord (pollSensors pins nowMs nowEpoch endMs s) i = (nowMs, nowEpoch, True)) \<and>
     (sensorInitialized s ! i \<and> readStableSensorWet pins i = wet (snapshot s) ! i \<longrightarrow>
        transitionRecord (pollSensors pins nowMs nowEpoch endMs s) i = transitionRecord s i) \<and>
     wet (snapshot (pollSensors pins nowMs nowEpoch endMs s)) ! i = readStableSensorWet pins i"
proof
  assume h: "arrays4 s \<and> i < 4"
  let ?s0 = "s\<lparr>snapshot := (snapshot s)\<lparr>wetCount := 0\<rparr>\<rparr>"
  let ?s1 = "pollLoop pins nowMs nowEpoch 0 ?s0"
  have a0: "arrays4 ?s0" using h by (simp add: arrays4_def)
  have g: "(transitionRecord ?s1 i, wet (snapshot ?s1) ! i) =
     (if \<not> sensorInitialized s ! i \<or> readStableSensorWet pins i \<noteq> wet (snapshot s) ! i
      then (nowMs, nowEpoch, True) else transitionRecord s i,
      readStableSensorWet pins i)"
    using pollLoop_gen [OF a0, of i pins nowMs nowEpoch 0] h
    by (simp add: transitionRecord_def)
  have r: "transitionRecord (pollSensors pins nowMs nowEpoch endMs s) i = transitionRecord ?s1 i"
    by (simp add: pollSensors_def Let_def transitionRecord_def)
  have w: "wet (snapshot (pollSensors pins nowMs nowEpoch endMs s)) = wet (snapshot ?s1)"
    by (simp add: pollSensors_def Let_def)
  from g r w
  show "((\<not> sensorInitialized s ! i \<or> readStableSensorWet pins i \<noteq> wet (snapshot s) ! i) \<longrightarrow>
        transitionRecord (pollSensors pins nowMs nowEpoch endMs s) i = (nowMs, nowEpoch, True)) \<and>
     (sensorInitialized s ! i \<and> readStableSensorWet pins i = wet (snapshot s) ! i \<longrightarrow>
        transitionRecord (pollSensors pins nowMs nowEpoch endMs s) i = transitionRecord s i) \<and>
     wet (snapshot (pollSensors pins nowMs nowEpoch endMs s)) ! i = readStableSensorWet pins i"
    by (auto split: if_splits)
qed

lemma topHigh_reads:
  "readStableSensorWet topHigh 0 \<and> \<not> readStableSensorWet topHigh 3"
  by (simp add: readStableSensorWet_def readStableSensorWet_cfg_def SENSOR_INVERTED_def
      topHigh_def sampleLoop.simps)

theorem pollSensors_transition_stamp_witness:
  "arrays4 topSampledWet \<and> (0::nat) < 4 \<and> (3::nat) < 4 \<and>
   sensorInitialized topSampledWet ! 0 \<and>
   readStableSensorWet topHigh 0 = wet (snapshot topSampledWet) ! 0 \<and>
   transitionRecord (pollSensors topHigh 2500 4 2540 topSampledWet) 0 = (1000, 3, True) \<and>
   \<not> sensorInitialized topSampledWet ! 3 \<and>
   transitionRecord (pollSensors topHigh 2500 4 2540 topSampledWet) 3 = (2500, 4, True) \<and>
   \<not> wet (snapshot (pollSensors topHigh 2500 4 2540 topSampledWet)) ! 3"
  using pollSensors_transition_stamp [of topSampledWet 0 topHigh 2500 4 2540]
    pollSensors_transition_stamp [of topSampledWet 3 topHigh 2500 4 2540]
    topHigh_reads
  by (simp add: topSampledWet_def initialDevice_def arrays4_def transitionRecord_def)

section \<open>Backfill of epoch stamps\<close>



lemma backfillChannel_fields:
  "sensorInitialized (backfillChannel nowEpoch nowMs i s) = sensorInitialized s \<and>
   sensorChangedAtMs (backfillChannel nowEpoch nowMs i s) = sensorChangedAtMs s \<and>
   snapshot (backfillChannel nowEpoch nowMs i s) = snapshot s \<and>
   length (sensorChangedAtEpoch (backfillChannel nowEpoch nowMs i s)) = length (sensorChangedAtEpoch s)"
  by (simp add: backfillChannel_def Let_def)

lemma backfillChannel_other:
  "j \<noteq> i \<Longrightarrow>
   sensorChangedAtEpoch (backfillChannel nowEpoch nowMs i s) ! j = sensorChangedAtEpoch s ! j"
  by (simp add: backfillChannel_def Let_def)

lemma backfillChannel_same:
  "i < length (sensorChangedAtEpoch s) \<Longrightarrow>
   sensorChangedAtEpoch (backfillChannel nowEpoch nowMs i s) ! i =
     (if \<not> sensorInitialized s ! i \<or> sensorChangedAtMs s ! i = 0 \<or>
         sensorChangedAtEpoch s ! i \<ge> MIN_VALID_EPOCH
      then sensorChangedAtEpoch s ! i
      else (if nowEpoch > uint ((nowMs - sensorChangedAtMs s ! i) div 1000)
            then nowEpoch - uint ((nowMs - sensorChangedAtMs s ! i) div 1000) else nowEpoch))"
  by (simp add: backfillChannel_def Let_def)

lemma backfillLoop_fields:
  "sensorInitialized (backfillLoop nowEpoch nowMs k s) = sensorInitialized s \<and>
   sensorChangedAtMs (backfillLoop nowEpoch nowMs k s) = sensorChangedAtMs s \<and>
   snapshot (backfillLoop nowEpoch nowMs k s) = snapshot s \<and>
   length (sensorChangedAtEpoch (backfillLoop nowEpoch nowMs k s)) = length (sensorChangedAtEpoch s)"
proof (induction nowEpoch nowMs k s rule: backfillLoop.induct)
  case (1 nowEpoch nowMs k s)
  show ?case
  proof (cases "k < 4")
    case False
    then have "backfillLoop nowEpoch nowMs k s = s" by (subst backfillLoop.simps) simp
    then show ?thesis by simp
  next
    case True
    have step: "backfillLoop nowEpoch nowMs k s =
        backfillLoop nowEpoch nowMs (k + 1) (backfillChannel nowEpoch nowMs k s)"
      using True by (subst backfillLoop.simps) simp
    show ?thesis
      unfolding step using "1.IH" [OF True] by (simp add: backfillChannel_fields)
  qed
qed

lemma backfillLoop_epoch:
  "i < length (sensorChangedAtEpoch s) \<Longrightarrow>
   sensorChangedAtEpoch (backfillLoop nowEpoch nowMs k s) ! i =
     (if k \<le> i \<and> i < 4
      then sensorChangedAtEpoch (backfillChannel nowEpoch nowMs i s) ! i
      else sensorChangedAtEpoch s ! i)"
proof (induction nowEpoch nowMs k s rule: backfillLoop.induct)
  case (1 nowEpoch nowMs k s)
  show ?case
  proof (cases "k < 4")
    case False
    then have "backfillLoop nowEpoch nowMs k s = s" by (subst backfillLoop.simps) simp
    with False show ?thesis by simp
  next
    case k4: True
    let ?s1 = "backfillChannel nowEpoch nowMs k s"
    have step: "backfillLoop nowEpoch nowMs k s = backfillLoop nowEpoch nowMs (k + 1) ?s1"
      using k4 by (subst backfillLoop.simps) simp
    have len1: "i < length (sensorChangedAtEpoch ?s1)"
      using "1.prems" by (simp add: backfillChannel_fields)
    note ih = "1.IH" [OF k4 len1]
    show ?thesis
    proof (cases "k = i")
      case True
      with ih k4 show ?thesis unfolding step by simp
    next
      case False
      have o: "sensorChangedAtEpoch ?s1 ! i = sensorChangedAtEpoch s ! i"
        using False backfillChannel_other [of i k] by simp
      have "sensorChangedAtEpoch (backfillChannel nowEpoch nowMs i ?s1) ! i =
          sensorChangedAtEpoch (backfillChannel nowEpoch nowMs i s) ! i"
        using "1.prems" len1 o
        by (simp add: backfillChannel_same backfillChannel_fields)
      with o ih False show ?thesis unfolding step by auto
    qed
  qed
qed






lemma backfill_arrays4:
  "arrays4 s \<Longrightarrow> arrays4 (backfillSensorEpochTimes syncEpoch nowEpoch nowMs s)"
  by (simp add: backfillSensorEpochTimes_def arrays4_def backfillLoop_fields)

lemma backfill_keeps_valid_epoch:
  assumes "arrays4 s" "i < 4" "sensorChangedAtEpoch s ! i \<ge> MIN_VALID_EPOCH"
  shows "sensorChangedAtEpoch (backfillSensorEpochTimes syncEpoch nowEpoch nowMs s) ! i =
     sensorChangedAtEpoch s ! i"
proof -
  from assms have len: "i < length (sensorChangedAtEpoch s)" by (simp add: arrays4_def)
  show ?thesis
    using assms backfillLoop_epoch [OF len, of nowEpoch nowMs 0]
    by (simp add: backfillSensorEpochTimes_def backfillChannel_same [OF len])
qed

text \<open>
  Claim C8.  A channel whose epoch is already at or above the minimum valid epoch keeps that
  epoch when the backfill runs, once or again, whatever the clock and the uptime read.
\<close>

theorem backfill_idempotent:
  "arrays4 s \<and> i < 4 \<and> sensorChangedAtEpoch s ! i \<ge> MIN_VALID_EPOCH \<longrightarrow>
     sensorChangedAtEpoch (backfillSensorEpochTimes syncEpoch nowEpoch nowMs s) ! i =
       sensorChangedAtEpoch s ! i \<and>
     sensorChangedAtEpoch (backfillSensorEpochTimes syncEpoch' nowEpoch' nowMs'
        (backfillSensorEpochTimes syncEpoch nowEpoch nowMs s)) ! i = sensorChangedAtEpoch s ! i"
proof
  assume h: "arrays4 s \<and> i < 4 \<and> sensorChangedAtEpoch s ! i \<ge> MIN_VALID_EPOCH"
  let ?s1 = "backfillSensorEpochTimes syncEpoch nowEpoch nowMs s"
  have one: "sensorChangedAtEpoch ?s1 ! i = sensorChangedAtEpoch s ! i"
    using h by (simp add: backfill_keeps_valid_epoch)
  have a1: "arrays4 ?s1" using h by (simp add: backfill_arrays4)
  have "sensorChangedAtEpoch (backfillSensorEpochTimes syncEpoch' nowEpoch' nowMs' ?s1) ! i =
      sensorChangedAtEpoch ?s1 ! i"
    using a1 h one by (simp add: backfill_keeps_valid_epoch)
  with one show "sensorChangedAtEpoch ?s1 ! i = sensorChangedAtEpoch s ! i \<and>
     sensorChangedAtEpoch (backfillSensorEpochTimes syncEpoch' nowEpoch' nowMs' ?s1) ! i =
       sensorChangedAtEpoch s ! i"
    by simp
qed

theorem backfill_idempotent_witness:
  "arrays4 stampedUnsynced \<and> (2::nat) < 4 \<and>
   sensorChangedAtEpoch stampedUnsynced ! 2 \<ge> MIN_VALID_EPOCH \<and>
   sensorChangedAtEpoch (backfillSensorEpochTimes 1704067300 1704067301 5000 stampedUnsynced) ! 2 =
     1704067296 \<and>
   sensorChangedAtEpoch (backfillSensorEpochTimes 1704070000 1704070000 2705000
     (backfillSensorEpochTimes 1704067300 1704067301 5000 stampedUnsynced)) ! 2 = 1704067296"
  using backfill_idempotent [of stampedUnsynced 2 1704067300 1704067301 5000 1704070000 1704070000 2705000]
  by (simp add: stampedUnsynced_def initialDevice_def arrays4_def MIN_VALID_EPOCH_def)

section \<open>The fetch of the manifest\<close>

text \<open>
  Claim C2 as the specification states it, that a fetch fails exactly when the status is outside
  the 2xx range, does not hold: the code compares the status with 200 alone, so a 204 answer is
  a failure although it lies in the range.
\<close>

theorem fetch_204_counterexample:
  "statusIs2xx 204 \<and>
   fetchTextFromUrl (answering 204 ''version_code=1'') ''http://x/manifest.txt'' = Inl ''HTTP 204'' \<and>
   fetchManifest (answering 204 ''version_code=1'') = Inl ''HTTP 204''"
  by code_simp

text \<open>
  Claim C2, amended.  For every URL and every transport the fetch fails exactly when the
  transport cannot be opened or the status differs from 200.  A status other than 200 gives the
  error text \<open>HTTP\<close> followed by the decimal status, a transport that cannot be opened gives
  \<open>cannot open URL\<close>, and on status 200 the body is returned unchanged and handed to the
  manifest parser.
\<close>

theorem fetch_fails_unless_200:
  "(isl (fetchTextFromUrl http url) \<longleftrightarrow>
      (if startsWith url ''https://'' then http SecureClient url else http PlainClient url) = BeginFailed \<or>
      (\<exists>code body. (if startsWith url ''https://'' then http SecureClient url else http PlainClient url)
          = Reply code body \<and> code \<noteq> 200)) \<and>
   ((if startsWith url ''https://'' then http SecureClient url else http PlainClient url) = Reply code body \<and>
    code \<noteq> 200 \<longrightarrow> fetchTextFromUrl http url = Inl (''HTTP '' @ String_of_int code)) \<and>
   ((if startsWith url ''https://'' then http SecureClient url else http PlainClient url) = BeginFailed \<longrightarrow>
      fetchTextFromUrl http url = Inl ''cannot open URL'') \<and>
   ((if startsWith url ''https://'' then http SecureClient url else http PlainClient url) = Reply 200 body \<longrightarrow>
      fetchTextFromUrl http url = Inr body) \<and>
   (fetchTextFromUrl http UPDATE_MANIFEST_URL = Inr body \<longrightarrow> fetchManifest http = parseManifest body) \<and>
   (fetchTextFromUrl http UPDATE_MANIFEST_URL = Inl e \<longrightarrow> fetchManifest http = Inl e)"
  by (auto simp: fetchTextFromUrl_def fetchManifest_def HTTP_CODE_OK_def split: http_reply.splits)

lemma String_of_int_404: "String_of_int 404 = ''404''"
  by code_simp

theorem fetch_fails_unless_200_witness:
  "fetchTextFromUrl (answering 404 ''gone'') ''http://x/manifest.txt'' = Inl ''HTTP 404'' \<and>
   fetchTextFromUrl unreachable ''https://x/manifest.txt'' = Inl ''cannot open URL'' \<and>
   fetchTextFromUrl (answering 200 ''version_code=1'') UPDATE_MANIFEST_URL = Inr ''version_code=1'' \<and>
   fetchManifest (answering 200 ''version_code=1'') = parseManifest ''version_code=1''"
proof -
  have a: "fetchTextFromUrl (answering 404 ''gone'') ''http://x/manifest.txt'' = Inl ''HTTP 404''"
    using fetch_fails_unless_200 [of "answering 404 ''gone''" "''http://x/manifest.txt''" 404 "''gone''"]
    by (simp add: answering_def startsWith_def String_of_int_404)
  have b: "fetchTextFromUrl unreachable ''https://x/manifest.txt'' = Inl ''cannot open URL''"
    using fetch_fails_unless_200 [of unreachable "''https://x/manifest.txt''"]
    by (simp add: unreachable_def startsWith_def)
  have c: "fetchTextFromUrl (answering 200 ''version_code=1'') UPDATE_MANIFEST_URL = Inr ''version_code=1''"
    using fetch_fails_unless_200 [of "answering 200 ''version_code=1''" UPDATE_MANIFEST_URL _ "''version_code=1''"]
    by (simp add: answering_def)
  have d: "fetchManifest (answering 200 ''version_code=1'') = parseManifest ''version_code=1''"
    using c fetch_fails_unless_200 [of "answering 200 ''version_code=1''" _ _ "''version_code=1''"]
    by simp
  from a b c d show ?thesis by simp
qed

section \<open>The check action after a failure\<close>

lemma handleCheckUpdate_failure:
  "\<not> wifiConnected \<or> isl (fetchManifest http) \<Longrightarrow>
   pendingUpdate (snd (handleCheckUpdate wifiConnected http s)) = pendingUpdate s \<and>
   \<not> updateAvailable (snd (handleCheckUpdate wifiConnected http s)) \<and>
   updateStatus (snd (handleCheckUpdate wifiConnected http s)) =
     (if \<not> wifiConnected then ''Cannot check update: WiFi is disconnected.''
      else ''Update check failed: '' @ projl (fetchManifest http))"
  by (auto simp: handleCheckUpdate_def split: sum.splits)

text \<open>
  Claim C1 asks that a failed check clears the pending manifest.  The code resets
  \<open>updateAvailable\<close> and records the reason, but leaves \<open>pendingUpdate\<close> as it was: after a
  check that found an update, a check refused for lack of WiFi, one answered with status 404
  and one whose manifest does not parse all keep the manifest found before.
\<close>

theorem handleCheckUpdate_failure_keeps_pending:
  "pendingUpdate updateFound \<noteq> emptyManifest \<and>
   snd (handleCheckUpdate False unreachable updateFound) =
     updateFound\<lparr>updateAvailable := False,
                 updateStatus := ''Cannot check update: WiFi is disconnected.''\<rparr> \<and>
   pendingUpdate (snd (handleCheckUpdate False unreachable updateFound)) = pendingUpdate updateFound \<and>
   snd (handleCheckUpdate True (answering 404 []) updateFound) =
     updateFound\<lparr>updateAvailable := False, updateStatus := ''Update check failed: HTTP 404''\<rparr> \<and>
   pendingUpdate (snd (handleCheckUpdate True (answering 404 []) updateFound)) = pendingUpdate updateFound \<and>
   snd (handleCheckUpdate True (answering 200 ''version_code=0'') updateFound) =
     updateFound\<lparr>updateAvailable := False,
                 updateStatus := ''Update check failed: manifest missing valid version_code''\<rparr> \<and>
   pendingUpdate (snd (handleCheckUpdate True (answering 200 ''version_code=0'') updateFound)) =
     pendingUpdate updateFound"
  by code_simp

section \<open>The install action without a pending update\<close>

text \<open>
  Claim C9.  Install while \<open>updateAvailable\<close> is false changes the status message only: the
  pending manifest, the flag, the snapshot and the transition records keep their values, the
  status becomes the no-pending-update message, and no OTA transfer is started.
\<close>

theorem handleInstallUpdate_no_pending:
  "\<not> updateAvailable s \<longrightarrow>
     handleInstallUpdate wifiConnected ota s =
       ([RedirectHome], s\<lparr>updateStatus := ''No pending update. Run check first.''\<rparr>) \<and>
     (snd (handleInstallUpdate wifiConnected ota s))\<lparr>updateStatus := updateStatus s\<rparr> = s \<and>
     pendingUpdate (snd (handleInstallUpdate wifiConnected ota s)) = pendingUpdate s \<and>
     updateAvailable (snd (handleInstallUpdate wifiConnected ota s)) = updateAvailable s \<and>
     snapshot (snd (handleInstallUpdate wifiConnected ota s)) = snapshot s \<and>
     sensorInitialized (snd (handleInstallUpdate wifiConnected ota s)) = sensorInitialized s \<and>
     sensorChangedAtMs (snd (handleInstallUpdate wifiConnected ota s)) = sensorChangedAtMs s \<and>
     sensorChangedAtEpoch (snd (handleInstallUpdate wifiConnected ota s)) = sensorChangedAtEpoch s \<and>
     updateStatus (snd (handleInstallUpdate wifiConnected ota s)) = ''No pending update. Run check first.'' \<and>
     OtaUpdate cl url \<notin> set (fst (handleInstallUpdate wifiConnected ota s))"
  by (simp add: handleInstallUpdate_def)

theorem handleInstallUpdate_no_pending_witness:
  "\<not> updateAvailable initialDevice \<and>
   handleInstallUpdate True (\<lambda>cl url. HTTP_UPDATE_OK) initialDevice =
     ([RedirectHome], initialDevice\<lparr>updateStatus := ''No pending update. Run check first.''\<rparr>)"
  using handleInstallUpdate_no_pending [of initialDevice True "\<lambda>cl url. HTTP_UPDATE_OK"]
  by (simp add: initialDevice_def)

section \<open>The formatted time of a transition\<close>

text \<open>
  Claim C10.  The formatted transition time of a channel is \<open>-\<close> when the index is above 3 or
  the uptime stamp is 0; otherwise it is the formatted epoch when the clock is trusted and the
  epoch stamp is at or above the minimum valid epoch, and in every other case \<open>t+\<close>, the decimal
  form of the uptime stamp divided by 1000 rounded down, and \<open>s\<close>.
\<close>

theorem sensorChangeTimeToStr_cases:
  "(idx > 3 \<or> sensorChangedAtMs s ! idx = 0 \<longrightarrow>
      sensorChangeTimeToStr strftimeLocal now idx s = ''-'') \<and>
   (idx \<le> 3 \<and> sensorChangedAtMs s ! idx \<noteq> 0 \<and> isTimeSynced now \<and>
    sensorChangedAtEpoch s ! idx \<ge> MIN_VALID_EPOCH \<longrightarrow>
      sensorChangeTimeToStr strftimeLocal now idx s =
        formatEpoch strftimeLocal (sensorChangedAtEpoch s ! idx)) \<and>
   (idx \<le> 3 \<and> sensorChangedAtMs s ! idx \<noteq> 0 \<and>
    \<not> (isTimeSynced now \<and> sensorChangedAtEpoch s ! idx \<ge> MIN_VALID_EPOCH) \<longrightarrow>
      sensorChangeTimeToStr strftimeLocal now idx s =
        ''t+'' @ String_of_nat (unat (sensorChangedAtMs s ! idx) div 1000) @ ''s'')"
proof -
  have d: "unat (sensorChangedAtMs s ! idx div 1000) = unat (sensorChangedAtMs s ! idx) div 1000"
    by (simp add: unat_div)
  show ?thesis
    unfolding sensorChangeTimeToStr_def d by auto
qed

theorem sensorChangeTimeToStr_cases_witness:
  "sensorChangeTimeToStr (\<lambda>t. Some ''2024-01-01 00:01:36'') 1704067300 7 stampedUnsynced = ''-'' \<and>
   sensorChangedAtMs stampedUnsynced ! 2 \<noteq> 0 \<and> isTimeSynced 1704067300 \<and>
   sensorChangedAtEpoch stampedUnsynced ! 2 \<ge> MIN_VALID_EPOCH \<and>
   sensorChangeTimeToStr (\<lambda>t. Some ''2024-01-01 00:01:36'') 1704067300 2 stampedUnsynced =
     ''2024-01-01 00:01:36'' \<and>
   sensorChangedAtEpoch stampedUnsynced ! 3 < MIN_VALID_EPOCH \<and>
   sensorChangeTimeToStr (\<lambda>t. Some ''2024-01-01 00:01:36'') 1704067300 3 stampedUnsynced = ''t+1s''"
proof -
  have one: "String_of_nat (Suc 0) = ''1''" by code_simp
  show ?thesis
    using sensorChangeTimeToStr_cases [of 7 stampedUnsynced "\<lambda>t. Some ''2024-01-01 00:01:36''" 1704067300]
      sensorChangeTimeToStr_cases [of 2 stampedUnsynced "\<lambda>t. Some ''2024-01-01 00:01:36''" 1704067300]
      sensorChangeTimeToStr_cases [of 3 stampedUnsynced "\<lambda>t. Some ''2024-01-01 00:01:36''" 1704067300]
    by (simp add: stampedUnsynced_def initialDevice_def isTimeSynced_def MIN_VALID_EPOCH_def
        formatEpoch_def one)
qed

section \<open>The manifest parser\<close>

text \<open>Trimming, on a string split at a character that is not white space.\<close>

lemma rtrim_nonspace:
  "\<not> isspace x \<Longrightarrow>
   rev (dropWhile isspace (rev (a @ x # b))) = a @ x # rev (dropWhile isspace (rev b))"
  by (simp add: dropWhile_append)

lemma ltrim_nonspace:
  "\<not> isspace x \<Longrightarrow> \<forall>c\<in>set a. isspace c \<Longrightarrow> dropWhile isspace (a @ x # b) = x # b"
  by (simp add: dropWhile_append)

lemma trim_split:
  "\<not> isspace x \<Longrightarrow> \<forall>c\<in>set a. isspace c \<Longrightarrow>
   trim (a @ x # b) = x # rev (dropWhile isspace (rev b))"
  using rtrim_nonspace [of x "[]" b]
  by (simp add: trim_def ltrim_nonspace)

lemma trim_Nil:
  "dropWhile isspace l = [] \<Longrightarrow> trim l = []"
  unfolding trim_def by (simp only: rev.simps dropWhile.simps)

lemma trim_Cons:
  assumes "dropWhile isspace l = x # b"
  shows "\<not> isspace x \<and> trim l = x # rev (dropWhile isspace (rev b))"
proof -
  have nx: "\<not> isspace x" using assms by (metis hd_dropWhile list.sel(1) list.distinct(1))
  have "trim l = rev (dropWhile isspace (rev (x # b)))" by (simp only: trim_def assms)
  also have "\<dots> = x # rev (dropWhile isspace (rev b))"
    using rtrim_nonspace [OF nx, of "[]" b] by simp
  finally show ?thesis using nx by simp
qed

lemma ltrim_append_nonspace:
  assumes "dropWhile isspace k = x # k'"
  shows "dropWhile isspace (k @ y # v) = x # k' @ y # v"
proof -
  have nx: "\<not> isspace x" using trim_Cons [OF assms] by simp
  have sp: "\<forall>c\<in>set (takeWhile isspace k). isspace c" by (auto dest: set_takeWhileD)
  have "k = takeWhile isspace k @ x # k'"
    using assms takeWhile_dropWhile_id [of isspace k] by simp
  then have "k @ y # v = takeWhile isspace k @ x # (k' @ y # v)" by simp
  then have "dropWhile isspace (k @ y # v) = dropWhile isspace (takeWhile isspace k @ x # (k' @ y # v))"
    by (simp only:)
  also have "\<dots> = x # (k' @ y # v)" by (rule ltrim_nonspace [OF nx sp])
  finally show ?thesis by simp
qed

lemma rtrim_idem:
  "rev (dropWhile isspace (rev (rev (dropWhile isspace (rev b))))) = rev (dropWhile isspace (rev b))"
  by simp

lemma trim_rtrim: "trim (rev (dropWhile isspace (rev v))) = trim v"
proof (cases "dropWhile isspace v")
  case Nil
  then have all: "\<forall>c\<in>set v. isspace c" by (simp add: dropWhile_eq_Nil_conv)
  then have "dropWhile isspace (rev v) = []" by (simp add: dropWhile_eq_Nil_conv)
  then have "rev (dropWhile isspace (rev v)) = []" by (simp only: rev.simps)
  then have "trim (rev (dropWhile isspace (rev v))) = trim []" by (simp only:)
  also have "trim [] = []" by (simp add: trim_def)
  also have "[] = trim v" using trim_Nil [OF Nil] by simp
  finally show ?thesis .
next
  case (Cons y b)
  have v: "v = takeWhile isspace v @ y # b"
    using Cons takeWhile_dropWhile_id [of isspace v] by simp
  have sp: "\<forall>c\<in>set (takeWhile isspace v). isspace c" by (auto dest: set_takeWhileD)
  from trim_Cons [OF Cons] have ny: "\<not> isspace y"
    and tv: "trim v = y # rev (dropWhile isspace (rev b))" by simp_all
  have "rev (dropWhile isspace (rev v)) = rev (dropWhile isspace (rev (takeWhile isspace v @ y # b)))"
    using v by simp
  also have "\<dots> = takeWhile isspace v @ y # rev (dropWhile isspace (rev b))"
    by (rule rtrim_nonspace [OF ny])
  finally have "trim (rev (dropWhile isspace (rev v))) =
      trim (takeWhile isspace v @ y # rev (dropWhile isspace (rev b)))" by (simp only:)
  also have "\<dots> = y # rev (dropWhile isspace (rev (rev (dropWhile isspace (rev b)))))"
    by (rule trim_split [OF ny sp])
  also have "\<dots> = y # rev (dropWhile isspace (rev b))" by (simp only: rtrim_idem)
  finally show ?thesis using tv by simp
qed

lemma indexOf_first:
  assumes "c \<notin> set a"
  shows "indexOf (a @ c # b) c 0 = int (length a)"
proof -
  have "takeWhile (\<lambda>d. d \<noteq> c) (a @ c # b) = a @ takeWhile (\<lambda>d. d \<noteq> c) (c # b)"
    using assms by (intro takeWhile_append2) auto
  then have "takeWhile (\<lambda>d. d \<noteq> c) (a @ c # b) = a" by simp
  then show ?thesis by (simp add: indexOf_def Let_def)
qed

lemma substring_key: "substring (a @ c # b) 0 (length a) = a"
  by (simp add: substring_def Let_def)

lemma processLine_ignored:
  assumes "ignoredLine l"
  shows "processLine l out = out"
proof (cases "dropWhile isspace l")
  case Nil
  then show ?thesis by (simp add: processLine_def trim_Nil)
next
  case (Cons c cs)
  with assms have "c = CHR ''#''" by (simp add: ignoredLine_def)
  with trim_Cons [OF Cons] show ?thesis
    by (simp add: processLine_def startsWith_def)
qed

lemma tolower_hash: "tolower CHR ''#'' = CHR ''#''"
  by code_simp

lemma processLine_trimmed:
  assumes t: "trim raw = a @ CHR ''='' # b"
    and a: "a \<noteq> []" "hd a \<noteq> CHR ''#''" "CHR ''='' \<notin> set a"
  shows "processLine raw out =
     (if toLowerCase (trim a) = ''version_code'' then out\<lparr>versionCode := toInt (trim b)\<rparr>
      else if toLowerCase (trim a) = ''version_name'' then out\<lparr>versionName := trim b\<rparr>
      else if toLowerCase (trim a) = ''firmware_url'' then out\<lparr>firmwareUrl := trim b\<rparr>
      else out)"
proof -
  have len: "length (a @ CHR ''='' # b) \<noteq> 0" by simp
  have sw: "\<not> startsWith (a @ CHR ''='' # b) ''#''"
    using a(1,2) by (cases a) (simp_all add: startsWith_def)
  have idx: "indexOf (a @ CHR ''='' # b) CHR ''='' 0 = int (length a)"
    by (rule indexOf_first [OF a(3)])
  have pos: "\<not> int (length a) \<le> 0" using a(1) by simp
  have k: "substring (a @ CHR ''='' # b) 0 (nat (int (length a))) = a"
    by (simp add: substring_key)
  have v: "substring (a @ CHR ''='' # b) (nat (int (length a)) + 1) (length (a @ CHR ''='' # b)) = b"
    by (simp add: substring_def Let_def)
  show ?thesis
    unfolding processLine_def t Let_def
    by (simp only: len sw idx pos k v if_False simp_thms)
qed

lemma processLine_key_value:
  assumes "CHR ''='' \<notin> set k"
  shows "processLine (k @ CHR ''='' # v) out =
     (let key = toLowerCase (trim k); val = trim v
      in if key = ''version_code'' then out\<lparr>versionCode := toInt val\<rparr>
         else if key = ''version_name'' then out\<lparr>versionName := val\<rparr>
         else if key = ''firmware_url'' then out\<lparr>firmwareUrl := val\<rparr>
         else out)"
proof (cases "dropWhile isspace k")
  case Nil
  then have sp: "\<forall>c\<in>set k. isspace c" by (simp add: dropWhile_eq_Nil_conv)
  have ne: "\<not> isspace CHR ''=''" by (simp add: isspace_def)
  have "trim (k @ CHR ''='' # v) = CHR ''='' # rev (dropWhile isspace (rev v))"
    by (rule trim_split [OF ne sp])
  then have lhs: "processLine (k @ CHR ''='' # v) out = out"
    by (simp add: processLine_def startsWith_def indexOf_def)
  have "trim k = []" by (rule trim_Nil [OF Nil])
  then show ?thesis by (simp add: lhs toLowerCase_def)
next
  case (Cons x k')
  let ?rv = "rev (dropWhile isspace (rev v))"
  let ?rk = "rev (dropWhile isspace (rev k'))"
  from trim_Cons [OF Cons] have nx: "\<not> isspace x" and tk: "trim k = x # ?rk" by simp_all
  have ne: "\<not> isspace CHR ''=''" by (simp add: isspace_def)
  have "set (x # k') \<subseteq> set k" using set_dropWhileD [of _ isspace k] Cons by auto
  with assms have noeq: "CHR ''='' \<notin> set (x # k')" by blast
  have line: "trim (k @ CHR ''='' # v) = (x # k') @ CHR ''='' # ?rv"
  proof -
    have "trim (k @ CHR ''='' # v) = rev (dropWhile isspace (rev ((x # k') @ CHR ''='' # v)))"
      using ltrim_append_nonspace [OF Cons, of "CHR ''=''" v] by (simp add: trim_def)
    also have "\<dots> = (x # k') @ CHR ''='' # ?rv" by (rule rtrim_nonspace [OF ne])
    finally show ?thesis .
  qed
  have tkey: "trim (x # k') = trim k"
    using trim_Cons [of "x # k'" x k'] nx tk by simp
  have tval: "trim ?rv = trim v" by (rule trim_rtrim)
  show ?thesis
  proof (cases "x = CHR ''#''")
    case True
    have "processLine (k @ CHR ''='' # v) out = out"
      using True by (simp add: processLine_def line startsWith_def)
    moreover have "toLowerCase (trim k) = CHR ''#'' # toLowerCase ?rk"
      using True by (simp add: tk toLowerCase_def tolower_hash)
    ultimately show ?thesis by simp
  next
    case False
    then have h: "x # k' \<noteq> []" "hd (x # k') \<noteq> CHR ''#''" by simp_all
    show ?thesis
      unfolding Let_def
      using processLine_trimmed [OF line h noeq, of out]
      by (simp only: tkey tval)
  qed
qed

lemma foldl_skip_ignored:
  "foldl (\<lambda>out l. processLine l out) out (filter (\<lambda>l. \<not> ignoredLine l) ls) =
   foldl (\<lambda>out l. processLine l out) out ls"
  by (induction ls arbitrary: out) (simp_all add: processLine_ignored)

lemma loop_step:
  assumes lt: "start < length body"
    and e: "e = indexOf body CHR 0x0A start"
    and en: "en = (if e < 0 then int (length body) else e)"
  shows "substring body start (nat en) = takeWhile (\<lambda>c. c \<noteq> CHR 0x0A) (drop start body) \<and>
     drop (nat (en + 1)) body = drop 1 (dropWhile (\<lambda>c. c \<noteq> CHR 0x0A) (drop start body))"
proof -
  let ?P = "\<lambda>c. c \<noteq> CHR 0x0A"
  let ?rest = "drop start body"
  let ?n = "length (takeWhile ?P ?rest)"
  have tw: "takeWhile ?P ?rest = take ?n ?rest" by (rule takeWhile_eq_take)
  have dw: "dropWhile ?P ?rest = drop ?n ?rest" by (rule dropWhile_eq_drop)
  have nle: "?n \<le> length body - start"
    using length_takeWhile_le [of ?P ?rest] by simp
  show ?thesis
  proof (cases "?n = length body - start")
    case True
    have env: "en = int (length body)"
      using lt True by (simp add: en e indexOf_def Let_def)
    have s1: "substring body start (nat en) = ?rest"
      using lt by (simp add: env substring_def Let_def)
    have "take ?n ?rest = ?rest" using True by simp
    with tw have t1: "takeWhile ?P ?rest = ?rest" by (simp only:)
    have "drop ?n ?rest = []" using True by simp
    with dw have d1: "dropWhile ?P ?rest = []" by (simp only:)
    have d2: "drop (nat (en + 1)) body = []" by (simp add: env)
    show ?thesis by (simp only: s1 t1 d1 d2 drop_Nil simp_thms)
  next
    case False
    have env: "en = int (start + ?n)"
      using lt False by (simp add: en e indexOf_def Let_def)
    from False nle have lt2: "start + ?n < length body" by arith
    have nen: "nat en = start + ?n" by (simp only: env nat_int)
    have "substring body start (nat en) = take ?n ?rest"
      using lt lt2 by (simp add: nen substring_def Let_def)
    with tw have s1: "substring body start (nat en) = takeWhile ?P ?rest" by (simp only:)
    have "en + 1 = int (start + ?n + 1)" by (simp add: env)
    then have "nat (en + 1) = start + ?n + 1" by (simp only: nat_int)
    then have "nat (en + 1) = 1 + (?n + start)" by simp
    then have "drop (nat (en + 1)) body = drop 1 (drop ?n ?rest)"
      by (simp only: drop_drop)
    with dw have d2: "drop (nat (en + 1)) body = drop 1 (dropWhile ?P ?rest)" by (simp only:)
    show ?thesis by (simp only: s1 d2 simp_thms)
  qed
qed

lemma parseLoop_lines:
  "parseLoop body start out =
     foldl (\<lambda>out l. processLine l out) out (manifestLines (drop start body))"
proof (induction body start out rule: parseLoop.induct)
  case (1 body start out)
  show ?case
  proof (cases "start < length body")
    case False
    then have "parseLoop body start out = out" by (subst parseLoop.simps) simp
    moreover from False have "manifestLines (drop start body) = []"
      by (subst manifestLines.simps) simp
    ultimately show ?thesis by simp
  next
    case True
    define e where "e = indexOf body CHR 0x0A start"
    define en where "en = (if e < 0 then int (length body) else e)"
    define line where "line = substring body start (nat en)"
    have step: "parseLoop body start out = parseLoop body (nat (en + 1)) (processLine line out)"
      using True by (subst parseLoop.simps) (simp add: Let_def e_def en_def line_def)
    note ls = loop_step [OF True e_def en_def]
    have l1: "line = takeWhile (\<lambda>c. c \<noteq> CHR 0x0A) (drop start body)"
      using ls by (simp only: line_def)
    have rest: "drop (nat (en + 1)) body =
        drop 1 (dropWhile (\<lambda>c. c \<noteq> CHR 0x0A) (drop start body))"
      using ls by (simp only:)
    have ne: "drop start body \<noteq> []" using True by simp
    have "manifestLines (drop start body) =
        takeWhile (\<lambda>c. c \<noteq> CHR 0x0A) (drop start body) #
        manifestLines (drop 1 (dropWhile (\<lambda>c. c \<noteq> CHR 0x0A) (drop start body)))"
      using ne by (subst manifestLines.simps) (simp only: if_False)
    then have ml: "manifestLines (drop start body) =
        line # manifestLines (drop (nat (en + 1)) body)"
      by (simp only: l1 rest)
    have ih: "parseLoop body (nat (en + 1)) (processLine line out) =
        foldl (\<lambda>out l. processLine l out) (processLine line out)
          (manifestLines (drop (nat (en + 1)) body))"
      using "1.IH" [OF True e_def en_def line_def] .
    show ?thesis by (simp only: step ih ml foldl.simps)
  qed
qed

text \<open>
  Claim C3.  Parsing succeeds exactly when the version code read from the text is positive and
  the firmware URL read from it is not empty.  The fields are those the non-ignored lines
  assign in order, a line being ignored when it is blank or its first character that is not
  white space is \<open>#\<close>.  A line \<open>k=v\<close> assigns by the key \<open>k\<close> trimmed and put in lower
  case, the value being \<open>v\<close> trimmed; a key that is none of the three changes nothing.  A
  failure carries a non-empty reason, one text for the version code and another for the URL,
  and on success an empty version name becomes the decimal form of the version code.
\<close>

theorem parseManifest_spec:
  "((\<exists>m. parseManifest body = Inr m) \<longleftrightarrow>
      versionCode (parseFields body) > 0 \<and> firmwareUrl (parseFields body) \<noteq> []) \<and>
   parseFields body =
      foldl (\<lambda>out l. processLine l out) emptyManifest
        (filter (\<lambda>l. \<not> ignoredLine l) (manifestLines body)) \<and>
   (ignoredLine l \<longrightarrow> processLine l out = out) \<and>
   (CHR ''='' \<notin> set k \<longrightarrow>
      processLine (k @ CHR ''='' # v) out =
        (let key = toLowerCase (trim k); val = trim v
         in if key = ''version_code'' then out\<lparr>versionCode := toInt val\<rparr>
            else if key = ''version_name'' then out\<lparr>versionName := val\<rparr>
            else if key = ''firmware_url'' then out\<lparr>firmwareUrl := val\<rparr>
            else out)) \<and>
   (parseManifest body = Inl e \<longrightarrow>
      e \<noteq> [] \<and>
      (if versionCode (parseFields body) \<le> 0 then e = ''manifest missing valid version_code''
       else firmwareUrl (parseFields body) = [] \<and> e = ''manifest missing firmware_url'')) \<and>
   ''manifest missing valid version_code'' \<noteq> ''manifest missing firmware_url'' \<and>
   (parseManifest body = Inr m \<longrightarrow>
      versionCode m = versionCode (parseFields body) \<and>
      firmwareUrl m = firmwareUrl (parseFields body) \<and>
      versionName m =
        (if versionName (parseFields body) = [] then String_of_int (versionCode (parseFields body))
         else versionName (parseFields body)))"
proof -
  have ok: "(\<exists>m. parseManifest body = Inr m) \<longleftrightarrow>
      versionCode (parseFields body) > 0 \<and> firmwareUrl (parseFields body) \<noteq> []"
    by (auto simp: parseManifest_def Let_def)
  have lines: "parseFields body =
      foldl (\<lambda>out l. processLine l out) emptyManifest
        (filter (\<lambda>l. \<not> ignoredLine l) (manifestLines body))"
    using parseLoop_lines [of body 0 emptyManifest]
    by (simp add: parseFields_def foldl_skip_ignored)
  have ign: "ignoredLine l \<longrightarrow> processLine l out = out"
    by (simp add: processLine_ignored)
  have kv: "CHR ''='' \<notin> set k \<longrightarrow>
      processLine (k @ CHR ''='' # v) out =
        (let key = toLowerCase (trim k); val = trim v
         in if key = ''version_code'' then out\<lparr>versionCode := toInt val\<rparr>
            else if key = ''version_name'' then out\<lparr>versionName := val\<rparr>
            else if key = ''firmware_url'' then out\<lparr>firmwareUrl := val\<rparr>
            else out)"
    using processLine_key_value [of k v out] by blast
  have err: "parseManifest body = Inl e \<longrightarrow>
      e \<noteq> [] \<and>
      (if versionCode (parseFields body) \<le> 0 then e = ''manifest missing valid version_code''
       else firmwareUrl (parseFields body) = [] \<and> e = ''manifest missing firmware_url'')"
    by (auto simp: parseManifest_def Let_def split: if_splits)
  have diff: "''manifest missing valid version_code'' \<noteq> ''manifest missing firmware_url''"
    by simp
  have succ: "parseManifest body = Inr m \<longrightarrow>
      versionCode m = versionCode (parseFields body) \<and>
      firmwareUrl m = firmwareUrl (parseFields body) \<and>
      versionName m =
        (if versionName (parseFields body) = [] then String_of_int (versionCode (parseFields body))
         else versionName (parseFields body))"
    by (auto simp: parseManifest_def Let_def split: if_splits)
  from ok lines ign kv err diff succ show ?thesis by blast
qed

theorem parseManifest_spec_witness:
  "parseFields manifest42 =
     \<lparr>versionCode = 42, versionName = ''beta'', firmwareUrl = ''http://x/fw.bin''\<rparr> \<and>
   parseManifest manifest42 =
     Inr \<lparr>versionCode = 42, versionName = ''beta'', firmwareUrl = ''http://x/fw.bin''\<rparr> \<and>
   parseFields manifestLoose =
     \<lparr>versionCode = 42, versionName = [], firmwareUrl = ''http://x/fw.bin''\<rparr> \<and>
   parseManifest manifestLoose =
     Inr \<lparr>versionCode = 42, versionName = ''42'', firmwareUrl = ''http://x/fw.bin''\<rparr> \<and>
   ignoredLine ''  # latest build'' \<and>
   processLine ''  # latest build'' emptyManifest = emptyManifest \<and>
   CHR ''='' \<notin> set '' Version_Code '' \<and>
   processLine ('' Version_Code '' @ CHR ''='' # '' 42 '') emptyManifest =
     emptyManifest\<lparr>versionCode := 42\<rparr> \<and>
   versionCode (parseFields ''version_code=7'') = 7 \<and>
   parseManifest ''version_code=7'' = Inl ''manifest missing firmware_url'' \<and>
   parseManifest ''firmware_url=http://x/fw.bin'' = Inl ''manifest missing valid version_code''"
proof -
  have f1: "parseFields manifest42 =
     \<lparr>versionCode = 42, versionName = ''beta'', firmwareUrl = ''http://x/fw.bin''\<rparr>"
    by code_simp
  have p1: "parseManifest manifest42 =
     Inr \<lparr>versionCode = 42, versionName = ''beta'', firmwareUrl = ''http://x/fw.bin''\<rparr>"
    by code_simp
  have f2: "parseFields manifestLoose =
     \<lparr>versionCode = 42, versionName = [], firmwareUrl = ''http://x/fw.bin''\<rparr>"
    by code_simp
  have p2: "parseManifest manifestLoose =
     Inr \<lparr>versionCode = 42, versionName = ''42'', firmwareUrl = ''http://x/fw.bin''\<rparr>"
    by code_simp
  have ig: "ignoredLine ''  # latest build''" by code_simp
  have k: "CHR ''='' \<notin> set '' Version_Code ''" by simp
  have key: "toLowerCase (trim '' Version_Code '') = ''version_code''" by code_simp
  have val: "toInt (trim '' 42 '') = 42" by code_simp
  have f3: "parseFields ''version_code=7'' =
     \<lparr>versionCode = 7, versionName = [], firmwareUrl = []\<rparr>" by code_simp
  have p3: "\<not> (\<exists>m. parseManifest ''version_code=7'' = Inr m)"
    using parseManifest_spec [of "''version_code=7''"] by (simp add: f3)
  then obtain e3 where e3: "parseManifest ''version_code=7'' = Inl e3"
    by (cases "parseManifest ''version_code=7''") auto
  have r3: "parseManifest ''version_code=7'' = Inl ''manifest missing firmware_url''"
    using parseManifest_spec [of "''version_code=7''" _ _ _ _ e3] e3 by (simp add: f3)
  have p4: "parseManifest ''firmware_url=http://x/fw.bin'' = Inl ''manifest missing valid version_code''"
    by code_simp
  have l1: "processLine ''  # latest build'' emptyManifest = emptyManifest"
    using parseManifest_spec [of _ "''  # latest build''" emptyManifest] ig by simp
  have l2: "processLine ('' Version_Code '' @ CHR ''='' # '' 42 '') emptyManifest =
     emptyManifest\<lparr>versionCode := 42\<rparr>"
    using parseManifest_spec [of _ _ emptyManifest "'' Version_Code ''" "'' 42 ''"] k
    by (simp only: key val Let_def simp_thms if_True)
  from f1 p1 f2 p2 ig l1 k l2 f3 r3 p4 show ?thesis by simp
qed

end
